theory Spec2Isabelle
  imports Main "HOL-Library.AList"
begin

section \<open>The Python values the rule engine works on\<close>

text \<open>
  \<^verbatim>\<open>tastypie/authorization.py\<close> is an interpreter over Python objects: it reads
  attributes by name, calls what is callable, tests truthiness, compares with \<open>==\<close>,
  tests membership with \<open>in\<close> and invokes comparison methods by name. The values below
  are the fragment of Python objects the development covers: \<open>None\<close>, booleans,
  integers, strings, lists, naive datetimes (microseconds on the clock), instances
  that carry their attributes in a dictionary (with an identity), parameterless
  callables (given by the value they return), bound methods of the builtin types, and
  \<open>NotImplemented\<close>.

  The runtime is that of Python 3: a dictionary keeps its keys in insertion order,
  and every object has the six rich comparison methods.

  Exceptions are values of type \<open>error\<close>; a computation that may raise returns
  \<open>error + 'a\<close>, with \<open>Inl\<close> for the exception. \<open>HostError\<close> stands for an
  exception of the host application (raised by the user query or by a sentinel).
  \<open>Unmodelled\<close> marks behaviour of the Python runtime that is outside the fragment
  (calling a public \<open>str\<close> method, ordering two lists); no result below depends on it.
\<close>

datatype error = TypeError | AttributeError | LookupError | ValueError | HostError | Unmodelled

datatype val =
    VNone
  | VBool bool
  | VInt int
  | VStr string
  | VList "val list"
  | VDatetime int
  | VObj nat "(string \<times> val) list"
  | VLambda val
  | VMethod string val
  | VNotImplemented

text \<open>Truthiness, as \<^verbatim>\<open>if x:\<close> and \<^verbatim>\<open>not x\<close> test it.\<close>

fun truthy :: "val \<Rightarrow> bool" where
  "truthy VNone = False"
| "truthy (VBool b) = b"
| "truthy (VInt i) = (i \<noteq> 0)"
| "truthy (VStr s) = (s \<noteq> [])"
| "truthy (VList xs) = (xs \<noteq> [])"
| "truthy (VDatetime t) = True"
| "truthy (VObj i attrs) = True"
| "truthy (VLambda v) = True"
| "truthy (VMethod n r) = True"
| "truthy VNotImplemented = True"

text \<open>
  \<^verbatim>\<open>a == b\<close>. Booleans are integers (\<^verbatim>\<open>True == 1\<close>), lists compare element by
  element, instances compare by identity. \<open>eq_key\<close> maps a value to a representative
  of its \<open>==\<close> class.
\<close>

primrec eq_key :: "val \<Rightarrow> val" where
  "eq_key VNone = VNone"
| "eq_key (VBool b) = VInt (if b then 1 else 0)"
| "eq_key (VInt i) = VInt i"
| "eq_key (VStr s) = VStr s"
| "eq_key (VList xs) = VList (map eq_key xs)"
| "eq_key (VDatetime t) = VDatetime t"
| "eq_key (VObj i attrs) = VObj i []"
| "eq_key (VLambda v) = VLambda v"
| "eq_key (VMethod n r) = VMethod n r"
| "eq_key VNotImplemented = VNotImplemented"

definition py_eq :: "val \<Rightarrow> val \<Rightarrow> bool" where
  "py_eq a b = (eq_key a = eq_key b)"

fun starts_with :: "string \<Rightarrow> string \<Rightarrow> bool" where
  "starts_with [] s = True"
| "starts_with (c # t) [] = False"
| "starts_with (c # t) (d # s) = (c = d \<and> starts_with t s)"

fun is_substring :: "string \<Rightarrow> string \<Rightarrow> bool" where
  "is_substring t [] = (t = [])"
| "is_substring t (c # s) = (starts_with t (c # s) \<or> is_substring t s)"

text \<open>
  \<^verbatim>\<open>x in c\<close>: membership in a list compares with \<open>==\<close>, membership in a string is the
  substring test and needs a string on the left, and every other value of the
  fragment is not a container.
\<close>

definition py_in :: "val \<Rightarrow> val \<Rightarrow> error + bool" where
  "py_in x c =
     (case c of
        VList ys \<Rightarrow> Inr (list_ex (\<lambda>y. py_eq y x) ys)
      | VStr s \<Rightarrow> (case x of VStr t \<Rightarrow> Inr (is_substring t s) | _ \<Rightarrow> Inl TypeError)
      | _ \<Rightarrow> Inl TypeError)"

subsection \<open>Attribute lookup\<close>

text \<open>
  \<^verbatim>\<open>getattr(v, name)\<close> reads the instance dictionary first and the type of the value
  second. Every type has the six rich comparison methods (they come from
  \<^verbatim>\<open>object\<close>); strings and lists have \<^verbatim>\<open>__contains__\<close>; strings also have their public
  methods. An attribute found on the type is a method bound to the value.
\<close>

definition comparison_names :: "string list" where
  "comparison_names = [''__eq__'', ''__ne__'', ''__lt__'', ''__le__'', ''__gt__'', ''__ge__'']"

definition str_public_names :: "string list" where
  "str_public_names =
     [''capitalize'', ''casefold'', ''center'', ''count'', ''encode'', ''endswith'',
      ''expandtabs'', ''find'', ''format'', ''format_map'', ''index'', ''isalnum'',
      ''isalpha'', ''isascii'', ''isdecimal'', ''isdigit'', ''isidentifier'', ''islower'',
      ''isnumeric'', ''isprintable'', ''isspace'', ''istitle'', ''isupper'', ''join'',
      ''ljust'', ''lower'', ''lstrip'', ''maketrans'', ''partition'', ''removeprefix'',
      ''removesuffix'', ''replace'', ''rfind'', ''rindex'', ''rjust'', ''rpartition'',
      ''rsplit'', ''rstrip'', ''split'', ''splitlines'', ''startswith'', ''strip'',
      ''swapcase'', ''title'', ''translate'', ''upper'', ''zfill'']"

definition instance_dict :: "val \<Rightarrow> (string \<times> val) list" where
  "instance_dict v = (case v of VObj i attrs \<Rightarrow> attrs | _ \<Rightarrow> [])"

definition type_attrs :: "val \<Rightarrow> string list" where
  "type_attrs v =
     (case v of
        VStr s \<Rightarrow> comparison_names @ [''__contains__''] @ str_public_names
      | VList xs \<Rightarrow> comparison_names @ [''__contains__'']
      | _ \<Rightarrow> comparison_names)"

definition py_getattr :: "val \<Rightarrow> string \<Rightarrow> val option" where
  "py_getattr v name =
     (case map_of (instance_dict v) name of
        Some a \<Rightarrow> Some a
      | None \<Rightarrow> if name \<in> set (type_attrs v) then Some (VMethod name v) else None)"

subsection \<open>Calls\<close>

fun num_of :: "val \<Rightarrow> int option" where
  "num_of (VBool b) = Some (if b then 1 else 0)"
| "num_of (VInt i) = Some i"
| "num_of v = None"

fun str_cmp :: "string \<Rightarrow> string \<Rightarrow> int" where
  "str_cmp [] [] = 0"
| "str_cmp [] (d # t) = - 1"
| "str_cmp (c # s) [] = 1"
| "str_cmp (c # s) (d # t) =
     (if (of_char c :: nat) < of_char d then - 1
      else if (of_char d :: nat) < of_char c then 1
      else str_cmp s t)"

text \<open>The three-way comparison of two values that Python orders: \<open>None\<close> when it does not.\<close>

definition py_cmp :: "val \<Rightarrow> val \<Rightarrow> int option" where
  "py_cmp a b =
     (case (num_of a, num_of b) of
        (Some m, Some n) \<Rightarrow> Some (sgn (m - n))
      | _ \<Rightarrow>
        (case (a, b) of
           (VStr s, VStr t) \<Rightarrow> Some (str_cmp s t)
         | (VDatetime s, VDatetime t) \<Rightarrow> Some (sgn (s - t))
         | _ \<Rightarrow> None))"

definition cmp_holds :: "string \<Rightarrow> int \<Rightarrow> bool" where
  "cmp_holds name c =
     (if name = ''__eq__'' then c = 0
      else if name = ''__ne__'' then c \<noteq> 0
      else if name = ''__lt__'' then c < 0
      else if name = ''__le__'' then c \<le> 0
      else if name = ''__gt__'' then 0 < c
      else 0 \<le> c)"

definition is_list :: "val \<Rightarrow> bool" where
  "is_list v = (case v of VList xs \<Rightarrow> True | _ \<Rightarrow> False)"

text \<open>
  \<^verbatim>\<open>a.__op__(b)\<close> for one of the six comparison methods, called directly: it answers
  for operands it orders, answers \<open>==\<close> and \<open>!=\<close> for two lists and for a value and
  itself, and returns \<^verbatim>\<open>NotImplemented\<close> otherwise (the caller is a plain method call,
  not the operator, so nothing retries with the operands swapped).
\<close>

definition rich_compare :: "string \<Rightarrow> val \<Rightarrow> val \<Rightarrow> error + val" where
  "rich_compare name a b =
     (case py_cmp a b of
        Some c \<Rightarrow> Inr (VBool (cmp_holds name c))
      | None \<Rightarrow>
        if is_list a \<and> is_list b then
          (if name = ''__eq__'' then Inr (VBool (py_eq a b))
           else if name = ''__ne__'' then Inr (VBool (\<not> py_eq a b))
           else Inl Unmodelled)
        else if name = ''__eq__'' \<and> py_eq a b \<and> num_of a = None \<and> \<not> is_list a
          then Inr (VBool True)
        else if name = ''__ne__'' \<and> py_eq a b \<and> num_of a = None \<and> \<not> is_list a
          then Inr (VBool False)
        else Inr VNotImplemented)"

definition call_method :: "string \<Rightarrow> val \<Rightarrow> val list \<Rightarrow> error + val" where
  "call_method name recv args =
     (if name \<in> set comparison_names then
        (case args of [b] \<Rightarrow> rich_compare name recv b | _ \<Rightarrow> Inl TypeError)
      else if name = ''__contains__'' then
        (case args of
           [b] \<Rightarrow> (case py_in b recv of Inl e \<Rightarrow> Inl e | Inr r \<Rightarrow> Inr (VBool r))
         | _ \<Rightarrow> Inl TypeError)
      else Inl Unmodelled)"

definition callable :: "val \<Rightarrow> bool" where
  "callable v = (case v of VLambda r \<Rightarrow> True | VMethod n r \<Rightarrow> True | _ \<Rightarrow> False)"

text \<open>\<^verbatim>\<open>f(*args)\<close>: calling what is not callable, or with the wrong arity, is a \<^verbatim>\<open>TypeError\<close>.\<close>

definition py_call :: "val \<Rightarrow> val list \<Rightarrow> error + val" where
  "py_call f args =
     (case f of
        VLambda r \<Rightarrow> (if args = [] then Inr r else Inl TypeError)
      | VMethod n recv \<Rightarrow> call_method n recv args
      | _ \<Rightarrow> Inl TypeError)"

subsection \<open>Splitting a path\<close>

text \<open>
  \<^verbatim>\<open>s.split("__")\<close>: the separator is searched from the left, occurrences do not
  overlap, and the result always has at least one segment.
\<close>

fun split_acc :: "string \<Rightarrow> string \<Rightarrow> string list" where
  "split_acc acc [] = [rev acc]"
| "split_acc acc [c] = [rev (c # acc)]"
| "split_acc acc (c # d # cs) =
     (if c = CHR ''_'' \<and> d = CHR ''_'' then rev acc # split_acc [] cs
      else split_acc (c # acc) (d # cs))"

definition py_split :: "string \<Rightarrow> string list" where
  "py_split s = split_acc [] s"

section \<open>The authorization class\<close>

text \<open>
  A rule is a pair \<^verbatim>\<open>(lhs, rhs)\<close> (naked) or a list \<^verbatim>\<open>[sentinel, (lhs, rhs)]\<close>; the
  sentinel is a function of the user, and may raise.
\<close>

datatype rule =
    Naked string string
  | Sentinel "val \<Rightarrow> error + val" string string

text \<open>
  \<open>self\<close>: the rule sets by operation name, the primitives passed to the constructor,
  and the two fields \<^verbatim>\<open>normalize_lookups\<close> assigns on every call.
\<close>

record authorization =
  rules :: "(string \<times> rule list) list"
  primitives :: "(string \<times> val) list"
  self_user :: val
  self_request :: val

record Bundle =
  obj :: val
  request :: val

text \<open>
  What the module reads from outside the repository: the clock
  (\<^verbatim>\<open>datetime.datetime.now()\<close>, in microseconds) and the outcome of \<^verbatim>\<open>get_user\<close>, which
  queries the user table of the host application (\<^verbatim>\<open>apps.grondal.models.user\<close>): a user
  (or \<^verbatim>\<open>False\<close>), or the exception the query raises.
\<close>

record host =
  now :: int
  get_user :: "val \<Rightarrow> error + val"

text \<open>\<^verbatim>\<open>isnot_super\<close>, the sentinel the module ships.\<close>

definition isnot_super :: "val \<Rightarrow> error + val" where
  "isnot_super user =
     (case py_getattr user ''is_super'' of
        None \<Rightarrow> Inl AttributeError
      | Some s \<Rightarrow> Inr (VBool (py_eq s (VBool False))))"

definition timediff :: "host \<Rightarrow> int \<Rightarrow> val" where
  "timediff h d = VLambda (VDatetime (now h + d * 86400000000))"

text \<open>
  The \<^verbatim>\<open>PRIMITIVES\<close> dictionary after \<^verbatim>\<open>__init__\<close>: the five clock primitives, then
  \<^verbatim>\<open>user\<close> and \<^verbatim>\<open>request\<close> (which read the fields of \<open>self\<close> when called), then the
  constructor's primitives, each assignment overwriting an earlier binding of the
  same name.
\<close>

definition PRIMITIVES :: "host \<Rightarrow> authorization \<Rightarrow> (string \<times> val) list" where
  "PRIMITIVES h self =
     fold (\<lambda>(k, p). AList.update k p) (primitives self)
       (AList.update ''request'' (VLambda (self_request self))
         (AList.update ''user'' (VLambda (self_user self))
           [(''now'', VLambda (VDatetime (now h))),
            (''yesterday'', timediff h (- 1)),
            (''tomorrow'', timediff h 1),
            (''last_week'', timediff h (- 7)),
            (''next_week'', timediff h 7)]))"

definition TRANSLATE_LOOKUPS :: "(string \<times> string) list" where
  "TRANSLATE_LOOKUPS = [(''gte'', ''ge''), (''lte'', ''le'')]"

text \<open>\<^verbatim>\<open>TRANSLATE_LOOKUPS.get(name, name)\<close>\<close>

definition translate_lookup :: "string \<Rightarrow> string" where
  "translate_lookup name = (case map_of TRANSLATE_LOOKUPS name of Some t \<Rightarrow> t | None \<Rightarrow> name)"

subsection \<open>introspect\<close>

fun introspect :: "val \<Rightarrow> string list \<Rightarrow> error + val" where
  "introspect item [] = Inr item"
| "introspect item (lookup # lookups) =
     (case py_getattr item lookup of
        None \<Rightarrow> Inl LookupError
      | Some child \<Rightarrow>
          if callable child then
            (case py_call child [] of
               Inl e \<Rightarrow> Inl e
             | Inr item' \<Rightarrow> introspect item' lookups)
          else introspect child lookups)"

subsection \<open>normalize\_lookups\<close>

text \<open>
  The first loop fills the dictionary \<^verbatim>\<open>lookups\<close>, keyed by left-path. A dictionary
  keeps its keys in insertion order and an assignment to a key that is present
  replaces the value in place: \<open>AList.update\<close>.
\<close>

fun gather_lookups ::
  "val \<Rightarrow> rule list \<Rightarrow> (string \<times> string) list \<Rightarrow> error + (string \<times> string) list" where
  "gather_lookups user [] lookups = Inr lookups"
| "gather_lookups user (Sentinel sentinel lhs rhs # rs) lookups =
     (case sentinel user of
        Inl e \<Rightarrow> Inl e
      | Inr t \<Rightarrow>
          if truthy t then gather_lookups user rs (AList.update lhs rhs lookups)
          else gather_lookups user rs lookups)"
| "gather_lookups user (Naked lhs rhs # rs) lookups =
     gather_lookups user rs (AList.update lhs rhs lookups)"

text \<open>
  The body of the second loop: \<^verbatim>\<open>PRIMITIVES.get(name)\<close> is \<open>None\<close> for a name that is
  not bound, and calling \<open>None\<close> raises.
\<close>

definition resolve_rhs :: "(string \<times> val) list \<Rightarrow> string \<Rightarrow> error + val" where
  "resolve_rhs prims v =
     (case py_call (case map_of prims (hd (py_split v)) of None \<Rightarrow> VNone | Some p \<Rightarrow> p) [] of
        Inl e \<Rightarrow> Inl e
      | Inr root_item \<Rightarrow> introspect root_item (tl (py_split v)))"

fun resolve_lookups ::
  "(string \<times> val) list \<Rightarrow> (string \<times> string) list \<Rightarrow> (string \<times> val) list
     \<Rightarrow> error + (string \<times> val) list" where
  "resolve_lookups prims [] lookups_out = Inr lookups_out"
| "resolve_lookups prims ((k, v) # rest) lookups_out =
     (case resolve_rhs prims v of
        Inl e \<Rightarrow> Inl e
      | Inr x \<Rightarrow> resolve_lookups prims rest (AList.update k x lookups_out))"

definition normalize_lookups ::
  "host \<Rightarrow> authorization \<Rightarrow> rule list \<Rightarrow> Bundle \<Rightarrow> error + (string \<times> val) list" where
  "normalize_lookups h self rs b =
     (case get_user h (request b) of
        Inl e \<Rightarrow> Inl e
      | Inr u \<Rightarrow>
          (let self' = self\<lparr>self_user := u, self_request := request b\<rparr> in
           case gather_lookups (self_user self') rs [] of
             Inl e \<Rightarrow> Inl e
           | Inr lookups \<Rightarrow> resolve_lookups (PRIMITIVES h self') lookups []))"

subsection \<open>lhslookup\<close>

text \<open>
  The loop over \<^verbatim>\<open>lookups[:-1]\<close> rebinds the variable \<^verbatim>\<open>lhs\<close>, which holds the path
  string when the loop starts; \<^verbatim>\<open>getattr\<close> without a default raises
  \<^verbatim>\<open>AttributeError\<close>.
\<close>

fun lhs_traverse :: "val \<Rightarrow> string list \<Rightarrow> error + val" where
  "lhs_traverse cur [] = Inr cur"
| "lhs_traverse cur (lookup # rest) =
     (case py_getattr cur lookup of
        None \<Rightarrow> Inl AttributeError
      | Some nxt \<Rightarrow> lhs_traverse nxt rest)"

text \<open>
  The rest of the function, for the value \<open>L\<close> the loop leaves in \<^verbatim>\<open>lhs\<close>. First the
  two steps after \<^verbatim>\<open>if lastleg:\<close>: the membership keyword, then the comparison
  method looked up by its translated name, whose default raises \<^verbatim>\<open>LookupError\<close> when
  called.
\<close>

definition lhs_compare :: "val \<Rightarrow> string \<Rightarrow> val \<Rightarrow> error + val" where
  "lhs_compare L seg rhs =
     (if seg \<in> set [''in''] then
        (case py_in L rhs of Inl e \<Rightarrow> Inl e | Inr r \<Rightarrow> Inr (VBool r))
      else
        (case py_getattr L (''__'' @ translate_lookup seg @ ''__'') of
           None \<Rightarrow> Inl LookupError
         | Some m \<Rightarrow> py_call m [rhs]))"

text \<open>\<^verbatim>\<open>getattr(lhs, lookups[-1], None)\<close>\<close>

definition lastleg_of :: "val \<Rightarrow> string \<Rightarrow> val" where
  "lastleg_of L seg = (case py_getattr L seg of None \<Rightarrow> VNone | Some a \<Rightarrow> a)"

definition lhs_lastleg :: "val \<Rightarrow> string \<Rightarrow> val \<Rightarrow> error + val" where
  "lhs_lastleg L seg rhs =
     (let lastleg = lastleg_of L seg in
      if truthy lastleg then Inr (VBool (py_eq lastleg rhs))
      else lhs_compare L seg rhs)"

definition lhslookup :: "val \<Rightarrow> string \<Rightarrow> val \<Rightarrow> error + val" where
  "lhslookup detail_object lhs rhs =
     (let lookups = py_split lhs in
      case lhs_traverse (VStr lhs) (butlast lookups) of
        Inl e \<Rightarrow> Inl e
      | Inr L \<Rightarrow> lhs_lastleg L (last lookups) rhs)"

subsection \<open>validate\_detail and its aliases\<close>

text \<open>
  \<^verbatim>\<open>for lhs, rhs in self.normalize_lookups(...)\<close> iterates over the dictionary that
  \<^verbatim>\<open>normalize_lookups\<close> returns, that is over its keys, and unpacks each key into two
  variables: a string of two characters unpacks into its characters, any other
  string raises \<^verbatim>\<open>ValueError\<close>.
\<close>

fun check_keys :: "val \<Rightarrow> string list \<Rightarrow> error + bool" where
  "check_keys detail_object [] = Inr True"
| "check_keys detail_object (key # keys) =
     (case key of
        [l, r] \<Rightarrow>
          (case lhslookup detail_object [l] (VStr [r]) of
             Inl e \<Rightarrow> Inl e
           | Inr res \<Rightarrow> if \<not> truthy res then Inr False else check_keys detail_object keys)
      | _ \<Rightarrow> Inl ValueError)"

definition validate_detail ::
  "host \<Rightarrow> authorization \<Rightarrow> val \<Rightarrow> Bundle \<Rightarrow> string \<Rightarrow> error + bool" where
  "validate_detail h self detail_object b auth_method =
     (case normalize_lookups h self
             (case map_of (rules self) auth_method of None \<Rightarrow> [] | Some rs \<Rightarrow> rs) b of
        Inl e \<Rightarrow> Inl e
      | Inr lookups_out \<Rightarrow> check_keys detail_object (map fst lookups_out))"

definition create_detail :: "host \<Rightarrow> authorization \<Rightarrow> val list \<Rightarrow> Bundle \<Rightarrow> error + bool" where
  "create_detail h self object_list b = validate_detail h self (obj b) b ''create''"

definition update_detail :: "host \<Rightarrow> authorization \<Rightarrow> val list \<Rightarrow> Bundle \<Rightarrow> error + bool" where
  "update_detail h self object_list b = validate_detail h self (obj b) b ''update''"

definition delete_detail :: "host \<Rightarrow> authorization \<Rightarrow> val list \<Rightarrow> Bundle \<Rightarrow> error + bool" where
  "delete_detail h self object_list b = validate_detail h self (obj b) b ''delete''"

section \<open>Notions used to state the properties\<close>

definition rule_lhs :: "rule \<Rightarrow> string" where
  "rule_lhs r = (case r of Naked lhs rhs \<Rightarrow> lhs | Sentinel s lhs rhs \<Rightarrow> lhs)"

definition rule_rhs :: "rule \<Rightarrow> string" where
  "rule_rhs r = (case r of Naked lhs rhs \<Rightarrow> rhs | Sentinel s lhs rhs \<Rightarrow> rhs)"

text \<open>A rule survives for a user when it is naked, or its sentinel accepts the user.\<close>

definition survives :: "val \<Rightarrow> rule \<Rightarrow> bool" where
  "survives u r =
     (case r of
        Naked lhs rhs \<Rightarrow> True
      | Sentinel s lhs rhs \<Rightarrow> (case s u of Inl e \<Rightarrow> False | Inr t \<Rightarrow> truthy t))"

text \<open>The sentinel of a rule, if it has one, returns for the user instead of raising.\<close>

definition sentinel_returns :: "val \<Rightarrow> rule \<Rightarrow> bool" where
  "sentinel_returns u r =
     (case r of
        Naked lhs rhs \<Rightarrow> True
      | Sentinel s lhs rhs \<Rightarrow> (case s u of Inl e \<Rightarrow> False | Inr t \<Rightarrow> True))"

text \<open>\<open>self\<close> as \<^verbatim>\<open>normalize_lookups\<close> leaves it for a call with user \<open>u\<close> and bundle \<open>b\<close>.\<close>

definition bound_self :: "authorization \<Rightarrow> val \<Rightarrow> Bundle \<Rightarrow> authorization" where
  "bound_self self u b = self\<lparr>self_user := u, self_request := request b\<rparr>"

subsection \<open>A concrete configuration\<close>

text \<open>
  The example of the specification: the rule set for \<^verbatim>\<open>update\<close> is
  \<^verbatim>\<open>[("owner__id", "user__id")]\<close>, the user has id 7, and the candidate's owner has
  id 7.
\<close>

definition ex_user :: val where
  "ex_user = VObj 1 [(''id'', VInt 7), (''is_super'', VBool False)]"

definition ex_host :: host where
  "ex_host = \<lparr>now = 0, get_user = (\<lambda>r. Inr ex_user)\<rparr>"

definition ex_auth :: authorization where
  "ex_auth =
     \<lparr>rules = [(''update'', [Naked ''owner__id'' ''user__id''])],
      primitives = [], self_user = VNone, self_request = VNone\<rparr>"

definition ex_bundle :: Bundle where
  "ex_bundle = \<lparr>obj = VObj 2 [(''owner'', ex_user)], request = VObj 3 []\<rparr>"

text \<open>A superuser, and a configuration that has rules for \<^verbatim>\<open>retrieve\<close> only.\<close>

definition ex_admin :: val where
  "ex_admin = VObj 4 [(''id'', VInt 1), (''is_super'', VBool True)]"

definition ex_admin_host :: host where
  "ex_admin_host = \<lparr>now = 0, get_user = (\<lambda>r. Inr ex_admin)\<rparr>"

definition ex_read_auth :: authorization where
  "ex_read_auth =
     \<lparr>rules = [(''retrieve'', [Naked ''owner'' ''user''])],
      primitives = [], self_user = VNone, self_request = VNone\<rparr>"

section \<open>Auxiliary facts\<close>

lemma gather_append:
  "gather_lookups u (rs1 @ rs2) acc =
     (case gather_lookups u rs1 acc of Inl e \<Rightarrow> Inl e | Inr acc' \<Rightarrow> gather_lookups u rs2 acc')"
  by (induction u rs1 acc rule: gather_lookups.induct) (auto split: sum.splits)

lemma gather_distinct:
  "gather_lookups u rs acc = Inr lk \<Longrightarrow> distinct (map fst acc) \<Longrightarrow> distinct (map fst lk)"
  by (induction u rs acc rule: gather_lookups.induct)
     (auto split: sum.splits if_splits simp: distinct_update)

lemma survivors_Cons:
  "rule_lhs ` {r \<in> set (x # rs). survives u r} =
     (if survives u x then {rule_lhs x} else {}) \<union> rule_lhs ` {r \<in> set rs. survives u r}"
  by auto

lemma gather_keys:
  "gather_lookups u rs acc = Inr lk \<Longrightarrow>
     fst ` set lk = fst ` set acc \<union> rule_lhs ` {r \<in> set rs. survives u r}"
proof (induction u rs acc rule: gather_lookups.induct)
  case (1 user lookups)
  then show ?case by simp
next
  case (2 user sentinel lhs rhs rs lookups)
  from "2.prems" obtain t where t: "sentinel user = Inr t"
    by (auto split: sum.splits)
  have l: "rule_lhs (Sentinel sentinel lhs rhs) = lhs" by (simp add: rule_lhs_def)
  have s: "survives user (Sentinel sentinel lhs rhs) = truthy t" using t by (simp add: survives_def)
  show ?case
  proof (cases "truthy t")
    case True
    with "2.prems" t have "gather_lookups user rs (AList.update lhs rhs lookups) = Inr lk" by simp
    from "2.IH"(1)[OF t True this] show ?thesis
      unfolding survivors_Cons l s using True by (auto simp: dom_update)
  next
    case False
    with "2.prems" t have "gather_lookups user rs lookups = Inr lk" by simp
    from "2.IH"(2)[OF t False this] show ?thesis
      unfolding survivors_Cons l s using False by auto
  qed
next
  case (3 user lhs rhs rs lookups)
  have l: "rule_lhs (Naked lhs rhs) = lhs" by (simp add: rule_lhs_def)
  have s: "survives user (Naked lhs rhs)" by (simp add: survives_def)
  from "3.prems" have "gather_lookups user rs (AList.update lhs rhs lookups) = Inr lk" by simp
  from "3.IH"[OF this] show ?case
    unfolding survivors_Cons l using s by (auto simp: dom_update)
qed

lemma gather_untouched:
  "gather_lookups u rs acc = Inr lk \<Longrightarrow>
   \<forall>r\<in>set rs. survives u r \<longrightarrow> rule_lhs r \<noteq> k \<Longrightarrow> map_of lk k = map_of acc k"
  by (induction u rs acc rule: gather_lookups.induct)
     (auto split: sum.splits if_splits simp: update_conv' survives_def rule_lhs_def)

lemma gather_step:
  "survives u r \<Longrightarrow> gather_lookups u (r # rs) acc =
     gather_lookups u rs (AList.update (rule_lhs r) (rule_rhs r) acc)"
  by (cases r) (auto simp: survives_def rule_lhs_def rule_rhs_def split: sum.splits)

lemma gather_last_wins:
  assumes "gather_lookups u (rs1 @ r # rs2) acc = Inr lk" and "survives u r"
    and "\<forall>r'\<in>set rs2. survives u r' \<longrightarrow> rule_lhs r' \<noteq> rule_lhs r"
  shows "map_of lk (rule_lhs r) = Some (rule_rhs r)"
proof -
  from assms(1) obtain acc' where a: "gather_lookups u rs1 acc = Inr acc'"
    and b: "gather_lookups u (r # rs2) acc' = Inr lk"
    by (auto simp: gather_append split: sum.splits)
  from b assms(2) have "gather_lookups u rs2 (AList.update (rule_lhs r) (rule_rhs r) acc') = Inr lk"
    by (simp add: gather_step)
  from gather_untouched[OF this assms(3)] show ?thesis
    by (simp add: update_conv')
qed

lemma resolve_distinct:
  "resolve_lookups P lk acc = Inr out \<Longrightarrow> distinct (map fst acc) \<Longrightarrow> distinct (map fst out)"
  by (induction P lk acc rule: resolve_lookups.induct)
     (auto split: sum.splits simp: distinct_update)

lemma resolve_keys:
  "resolve_lookups P lk acc = Inr out \<Longrightarrow> fst ` set out = fst ` set acc \<union> fst ` set lk"
  by (induction P lk acc rule: resolve_lookups.induct)
     (auto split: sum.splits simp: dom_update)

lemma resolve_untouched:
  "resolve_lookups P lk acc = Inr out \<Longrightarrow> k \<notin> fst ` set lk \<Longrightarrow> map_of out k = map_of acc k"
  by (induction P lk acc rule: resolve_lookups.induct)
     (auto split: sum.splits simp: update_conv')

lemma resolve_value:
  "resolve_lookups P lk acc = Inr out \<Longrightarrow> distinct (map fst lk) \<Longrightarrow> (k, v) \<in> set lk \<Longrightarrow>
     \<exists>x. resolve_rhs P v = Inr x \<and> map_of out k = Some x"
proof (induction P lk acc rule: resolve_lookups.induct)
  case (1 prims lookups_out)
  then show ?case by simp
next
  case (2 prims k' v' rest lookups_out)
  from "2.prems"(1) obtain x where x: "resolve_rhs prims v' = Inr x"
    and r: "resolve_lookups prims rest (AList.update k' x lookups_out) = Inr out"
    by (auto split: sum.splits)
  show ?case
  proof (cases "(k, v) = (k', v')")
    case True
    with "2.prems"(2) have "k \<notin> fst ` set rest" by auto
    from resolve_untouched[OF r this] True x show ?thesis by (simp add: update_conv')
  next
    case False
    with "2.prems" have "(k, v) \<in> set rest" "distinct (map fst rest)" by auto
    with "2.IH"[OF x r] show ?thesis by blast
  qed
qed

lemma resolve_order:
  "resolve_lookups P lk acc = Inr out \<Longrightarrow> distinct (map fst acc @ map fst lk) \<Longrightarrow>
     map fst out = map fst acc @ map fst lk"
proof (induction P lk acc rule: resolve_lookups.induct)
  case (1 prims lookups_out)
  then show ?case by simp
next
  case (2 prims k v rest lookups_out)
  from "2.prems"(1) obtain x where x: "resolve_rhs prims v = Inr x"
    and r: "resolve_lookups prims rest (AList.update k x lookups_out) = Inr out"
    by (auto split: sum.splits)
  from "2.prems"(2) have k: "k \<notin> set (map fst lookups_out)" by auto
  then have keys: "map fst (AList.update k x lookups_out) = map fst lookups_out @ [k]"
    by (simp add: update_keys)
  with "2.prems"(2) have "distinct (map fst (AList.update k x lookups_out) @ map fst rest)"
    by auto
  from "2.IH"[OF x r this] keys show ?case by simp
qed

lemma resolve_first_failure:
  "\<forall>(k', v')\<in>set pre. \<exists>x. resolve_rhs P v' = Inr x \<Longrightarrow> resolve_rhs P v = Inl e \<Longrightarrow>
     resolve_lookups P (pre @ (k, v) # post) acc = Inl e"
  by (induction pre arbitrary: acc) auto

lemma resolve_fails:
  "(k, v) \<in> set lk \<Longrightarrow> resolve_rhs P v = Inl e \<Longrightarrow> \<exists>e'. resolve_lookups P lk acc = Inl e'"
  by (induction P lk acc rule: resolve_lookups.induct) (auto split: sum.splits)

lemma resolve_rhs_unknown:
  "map_of P (hd (py_split v)) = None \<Longrightarrow> resolve_rhs P v = Inl TypeError"
  by (simp add: resolve_rhs_def py_call_def)

lemma fold_update_None:
  "map_of (fold (\<lambda>(k, p). AList.update k p) ps al) n = None
     \<longleftrightarrow> map_of al n = None \<and> n \<notin> fst ` set ps"
  by (induction ps arbitrary: al) (auto simp: update_conv' split: if_splits)

lemma PRIMITIVES_names:
  "map_of (PRIMITIVES h (bound_self self u b)) n = None \<longleftrightarrow> map_of (PRIMITIVES h self) n = None"
  by (simp add: PRIMITIVES_def bound_self_def fold_update_None update_conv')

lemma normalize_lookups_unfold:
  "get_user h (request b) = Inr u \<Longrightarrow>
     normalize_lookups h self rs b =
       (case gather_lookups u rs [] of
          Inl e \<Rightarrow> Inl e
        | Inr lookups \<Rightarrow> resolve_lookups (PRIMITIVES h (bound_self self u b)) lookups [])"
  by (simp add: normalize_lookups_def bound_self_def Let_def split: sum.splits)


lemmas ex_defs = ex_user_def ex_host_def ex_auth_def ex_bundle_def ex_admin_def ex_admin_host_def ex_read_auth_def
lemmas getattr_defs = py_getattr_def instance_dict_def type_attrs_def comparison_names_def str_public_names_def

lemma gather_total:
  "\<forall>r\<in>set rs. sentinel_returns u r \<Longrightarrow> \<exists>lk. gather_lookups u rs acc = Inr lk"
  by (induction u rs acc rule: gather_lookups.induct)
     (auto simp: sentinel_returns_def split: sum.splits)

lemma gather_entries:
  "gather_lookups u rs acc = Inr lk \<Longrightarrow> (k, v) \<in> set lk \<Longrightarrow>
     (k, v) \<in> set acc \<or> (\<exists>r\<in>set rs. survives u r \<and> rule_lhs r = k \<and> rule_rhs r = v)"
proof (induction u rs acc rule: gather_lookups.induct)
  case (1 user lookups)
  then show ?case by simp
next
  case (2 user sentinel lhs rhs rs lookups)
  from "2.prems" obtain t where t: "sentinel user = Inr t"
    by (auto split: sum.splits)
  show ?case
  proof (cases "truthy t")
    case True
    with "2.prems" t have g: "gather_lookups user rs (AList.update lhs rhs lookups) = Inr lk" by simp
    have sv: "survives user (Sentinel sentinel lhs rhs)" using t True by (simp add: survives_def)
    from "2.IH"(1)[OF t True g "2.prems"(2)] show ?thesis
    proof
      assume "(k, v) \<in> set (AList.update lhs rhs lookups)"
      then have "(k, v) \<in> set lookups \<or> (k, v) = (lhs, rhs)"
        by (induction lookups) (auto split: if_splits)
      with sv show ?thesis by (auto simp: rule_lhs_def rule_rhs_def)
    next
      assume "\<exists>r\<in>set rs. survives user r \<and> rule_lhs r = k \<and> rule_rhs r = v"
      then show ?thesis by auto
    qed
  next
    case False
    with "2.prems" t have g: "gather_lookups user rs lookups = Inr lk" by simp
    from "2.IH"(2)[OF t False g "2.prems"(2)] show ?thesis by auto
  qed
next
  case (3 user lhs rhs rs lookups)
  from "3.prems" have g: "gather_lookups user rs (AList.update lhs rhs lookups) = Inr lk" by simp
  have sv: "survives user (Naked lhs rhs)" by (simp add: survives_def)
  from "3.IH"[OF g "3.prems"(2)] show ?case
  proof
    assume "(k, v) \<in> set (AList.update lhs rhs lookups)"
    then have "(k, v) \<in> set lookups \<or> (k, v) = (lhs, rhs)"
      by (induction lookups) (auto split: if_splits)
    with sv show ?thesis by (auto simp: rule_lhs_def rule_rhs_def)
  next
    assume "\<exists>r\<in>set rs. survives user r \<and> rule_lhs r = k \<and> rule_rhs r = v"
    then show ?thesis by auto
  qed
qed

lemma resolve_only_TypeError:
  "\<forall>(k, v)\<in>set lk. (\<exists>x. resolve_rhs P v = Inr x) \<or> resolve_rhs P v = Inl TypeError \<Longrightarrow>
   \<exists>(k, v)\<in>set lk. resolve_rhs P v = Inl TypeError \<Longrightarrow>
   resolve_lookups P lk acc = Inl TypeError"
  by (induction P lk acc rule: resolve_lookups.induct) (auto split: sum.splits)

lemma lhslookup_single_char: "lhslookup x [l] rhs = Inl LookupError"
  by (simp add: lhslookup_def py_split_def lhs_lastleg_def lastleg_of_def lhs_compare_def
      translate_lookup_def TRANSLATE_LOOKUPS_def getattr_defs)

lemma check_keys_result:
  "check_keys x keys = Inr r \<Longrightarrow> keys = [] \<and> r"
proof (cases keys)
  case Nil
  then show "check_keys x keys = Inr r \<Longrightarrow> keys = [] \<and> r" by simp
next
  case (Cons key rest)
  then show "check_keys x keys = Inr r \<Longrightarrow> keys = [] \<and> r"
    by (auto simp: lhslookup_single_char split: list.splits)
qed

lemma validate_detail_never_False: "validate_detail h self x b auth_method \<noteq> Inr False"
  by (auto simp: validate_detail_def split: sum.splits dest: check_keys_result)

lemma validate_detail_True_iff:
  "validate_detail h self x b auth_method = Inr True \<longleftrightarrow>
     normalize_lookups h self
       (case map_of (rules self) auth_method of None \<Rightarrow> [] | Some rs \<Rightarrow> rs) b = Inr []"
  by (auto simp: validate_detail_def split: sum.splits dest: check_keys_result)

lemma comparison_on_every_type: "n \<in> set comparison_names \<Longrightarrow> n \<in> set (type_attrs v)"
  by (cases v) (simp_all add: type_attrs_def)

lemma getattr_comparison:
  "n \<in> set comparison_names \<Longrightarrow> map_of (instance_dict L) n = None \<Longrightarrow>
     py_getattr L n = Some (VMethod n L)"
  by (simp add: py_getattr_def comparison_on_every_type)

lemma call_comparison:
  "n \<in> set comparison_names \<Longrightarrow> py_call (VMethod n L) [rhs] = rich_compare n L rhs"
  by (simp add: py_call_def call_method_def)

lemma lhslookup_lastleg:
  "lhs_traverse (VStr lhs) (butlast (py_split lhs)) = Inr L \<Longrightarrow>
     lhslookup x lhs rhs = lhs_lastleg L (last (py_split lhs)) rhs"
  by (simp add: lhslookup_def)

lemma normalize_lookups_Nil:
  "get_user h (request b) = Inr u \<Longrightarrow> normalize_lookups h self [] b = Inr []"
  by (simp add: normalize_lookups_def)

lemma gather_empty_prefix:
  assumes "gather_lookups u (rs @ rs') [] = Inr []"
  shows "gather_lookups u rs [] = Inr []"
proof -
  from assms obtain lk where a: "gather_lookups u rs [] = Inr lk"
    and b: "gather_lookups u rs' lk = Inr []"
    by (auto simp: gather_append split: sum.splits)
  from gather_keys[OF b] have "lk = []" by simp
  with a show ?thesis by simp
qed

lemma normalize_empty_iff:
  "normalize_lookups h self rs b = Inr [] \<longleftrightarrow>
     (\<exists>u. get_user h (request b) = Inr u \<and> gather_lookups u rs [] = Inr [])"
proof
  assume n: "normalize_lookups h self rs b = Inr []"
  then obtain u where u: "get_user h (request b) = Inr u"
    by (auto simp: normalize_lookups_def split: sum.splits)
  with n obtain lk where g: "gather_lookups u rs [] = Inr lk"
    and r: "resolve_lookups (PRIMITIVES h (bound_self self u b)) lk [] = Inr []"
    by (auto simp: normalize_lookups_unfold split: sum.splits)
  from resolve_keys[OF r] have "lk = []" by simp
  with u g show "\<exists>u. get_user h (request b) = Inr u \<and> gather_lookups u rs [] = Inr []" by blast
next
  assume "\<exists>u. get_user h (request b) = Inr u \<and> gather_lookups u rs [] = Inr []"
  then show "normalize_lookups h self rs b = Inr []"
    by (auto simp: normalize_lookups_unfold)
qed

text \<open>
  What \<^verbatim>\<open>validate_detail\<close> can return: never \<open>False\<close>, and \<open>True\<close> exactly when
  no rule survives. A rule appended to a rule set cannot make it return \<open>True\<close>.
\<close>

lemma validate_detail_extension:
  assumes "map_of (rules self) auth_method = Some rs"
    and "map_of (rules self') auth_method = Some (rs @ [r])"
    and "validate_detail h self' x b auth_method = Inr True"
  shows "validate_detail h self x b auth_method = Inr True"
proof -
  from assms(2,3) obtain u where u: "get_user h (request b) = Inr u"
    and g: "gather_lookups u (rs @ [r]) [] = Inr []"
    by (auto simp: validate_detail_True_iff normalize_empty_iff)
  from gather_empty_prefix[OF g] u assms(1) show ?thesis
    by (auto simp: validate_detail_True_iff normalize_empty_iff)
qed

section \<open>The comparator dispatcher\<close>

text \<open>
  C1. The leading segments of a left-path are meant to be read from the candidate
  object. \<^verbatim>\<open>lhslookup\<close> never reads its parameter \<^verbatim>\<open>obj\<close>: the loop starts from the
  variable \<^verbatim>\<open>lhs\<close>, which holds the path string. For the candidate of the example,
  whose owner is the user, the path \<^verbatim>\<open>owner__id\<close> raises \<^verbatim>\<open>AttributeError\<close> (a string
  has no attribute \<^verbatim>\<open>owner\<close>), although the traversal from the candidate finds the
  owner; and the result of \<^verbatim>\<open>lhslookup\<close> is the same for every candidate.
\<close>

theorem lhslookup_starts_from_path_string:
  "lhslookup (obj ex_bundle) ''owner__id'' (VInt 7) = Inl AttributeError
   \<and> lhs_traverse (obj ex_bundle) (butlast (py_split ''owner__id'')) = Inr ex_user
   \<and> lhslookup x lhs rhs = lhslookup y lhs rhs"
  by (simp add: lhslookup_def py_split_def ex_defs getattr_defs)

text \<open>
  C4. When the plain lookup of the final segment on \<open>L\<close> gives a truthy value, the
  result is the comparison of that value with the right-hand value by \<open>==\<close>. When it
  gives a falsy value, the result is that of the membership and named-comparator
  steps, which is also the result when the attribute is absent.
\<close>

theorem lastleg_truthy_or_fallthrough:
  "(py_getattr L seg = Some v \<and> truthy v \<longrightarrow> lhs_lastleg L seg rhs = Inr (VBool (py_eq v rhs)))
   \<and> (py_getattr L seg = Some v \<and> \<not> truthy v \<longrightarrow> lhs_lastleg L seg rhs = lhs_compare L seg rhs)
   \<and> (py_getattr L seg = None \<longrightarrow> lhs_lastleg L seg rhs = lhs_compare L seg rhs)"
  by (simp add: lhs_lastleg_def lastleg_of_def)

theorem lastleg_truthy_or_fallthrough_witness:
  "py_getattr (VObj 5 [(''count'', VInt 3)]) ''count'' = Some (VInt 3) \<and> truthy (VInt 3)
   \<and> lhs_lastleg (VObj 5 [(''count'', VInt 3)]) ''count'' (VInt 3) = Inr (VBool True)
   \<and> py_getattr (VObj 5 [(''count'', VInt 0)]) ''count'' = Some (VInt 0) \<and> \<not> truthy (VInt 0)
   \<and> lhs_lastleg (VObj 5 [(''count'', VInt 0)]) ''count'' (VInt 0) = Inl LookupError
   \<and> py_getattr (VObj 5 []) ''count'' = None
   \<and> lhs_lastleg (VObj 5 []) ''count'' (VInt 0) = Inl LookupError"
  using lastleg_truthy_or_fallthrough [of "VObj 5 [(''count'', VInt 3)]" "''count''" "VInt 3" "VInt 3"]
    lastleg_truthy_or_fallthrough [of "VObj 5 [(''count'', VInt 0)]" "''count''" "VInt 0" "VInt 0"]
    lastleg_truthy_or_fallthrough [of "VObj 5 []" "''count''" "VInt 0" "VInt 0"]
  by (simp add: lhs_compare_def translate_lookup_def TRANSLATE_LOOKUPS_def py_eq_def getattr_defs)

text \<open>
  C5. When the final segment is \<^verbatim>\<open>in\<close> and its plain lookup gave nothing truthy, the
  result is the membership test \<^verbatim>\<open>L in rhs\<close>: \<open>L\<close> is the element and the right-hand
  value is the container.
\<close>

theorem membership_direction:
  "\<not> truthy (lastleg_of L ''in'') \<Longrightarrow>
     lhs_lastleg L ''in'' rhs = (case py_in L rhs of Inl e \<Rightarrow> Inl e | Inr r \<Rightarrow> Inr (VBool r))"
  by (simp add: lhs_lastleg_def lhs_compare_def)

theorem membership_direction_witness:
  "\<not> truthy (lastleg_of (VInt 2) ''in'')
   \<and> lhs_lastleg (VInt 2) ''in'' (VList [VInt 1, VInt 2]) = Inr (VBool True)
   \<and> py_in (VList [VInt 1, VInt 2]) (VInt 2) = Inl TypeError"
  using membership_direction [of "VInt 2" "VList [VInt 1, VInt 2]"]
  by (simp add: lastleg_of_def py_in_def py_eq_def getattr_defs)

text \<open>
  C8. In the named-comparator step the segment is translated (\<^verbatim>\<open>gte\<close> to \<^verbatim>\<open>ge\<close>,
  \<^verbatim>\<open>lte\<close> to \<^verbatim>\<open>le\<close>, any other name unchanged), the method of that name is read
  from \<open>L\<close> and called with the right-hand value, and a missing method raises
  \<^verbatim>\<open>LookupError\<close>. So \<^verbatim>\<open>gte\<close> gives what \<^verbatim>\<open>ge\<close> gives, which is \<^verbatim>\<open>L.__ge__(rhs)\<close>, and
  \<^verbatim>\<open>lte\<close> gives what \<^verbatim>\<open>le\<close> gives, which is \<^verbatim>\<open>L.__le__(rhs)\<close>.
\<close>

theorem named_comparator:
  "translate_lookup ''gte'' = ''ge'' \<and> translate_lookup ''lte'' = ''le''
   \<and> (seg \<noteq> ''gte'' \<and> seg \<noteq> ''lte'' \<longrightarrow> translate_lookup seg = seg)
   \<and> (\<not> truthy (lastleg_of L seg) \<and> seg \<noteq> ''in'' \<longrightarrow>
        lhs_lastleg L seg rhs =
          (case py_getattr L (''__'' @ translate_lookup seg @ ''__'') of
             None \<Rightarrow> Inl LookupError
           | Some m \<Rightarrow> py_call m [rhs]))
   \<and> (\<not> truthy (lastleg_of L ''gte'') \<and> \<not> truthy (lastleg_of L ''ge'') \<longrightarrow>
        lhs_lastleg L ''gte'' rhs = lhs_lastleg L ''ge'' rhs)
   \<and> (\<not> truthy (lastleg_of L ''lte'') \<and> \<not> truthy (lastleg_of L ''le'') \<longrightarrow>
        lhs_lastleg L ''lte'' rhs = lhs_lastleg L ''le'' rhs)
   \<and> (\<not> truthy (lastleg_of L ''gte'') \<and> map_of (instance_dict L) ''__ge__'' = None \<longrightarrow>
        lhs_lastleg L ''gte'' rhs = rich_compare ''__ge__'' L rhs)
   \<and> (\<not> truthy (lastleg_of L ''lte'') \<and> map_of (instance_dict L) ''__le__'' = None \<longrightarrow>
        lhs_lastleg L ''lte'' rhs = rich_compare ''__le__'' L rhs)"
proof -
  have ge: "''__ge__'' \<in> set comparison_names" and le: "''__le__'' \<in> set comparison_names"
    by (simp_all add: comparison_names_def)
  have t: "translate_lookup ''gte'' = ''ge''" "translate_lookup ''lte'' = ''le''"
    "translate_lookup ''ge'' = ''ge''" "translate_lookup ''le'' = ''le''"
    "seg \<noteq> ''gte'' \<and> seg \<noteq> ''lte'' \<longrightarrow> translate_lookup seg = seg"
    by (simp_all add: translate_lookup_def TRANSLATE_LOOKUPS_def)
  have step: "\<not> truthy (lastleg_of L s) \<and> s \<noteq> ''in'' \<longrightarrow>
        lhs_lastleg L s rhs =
          (case py_getattr L (''__'' @ translate_lookup s @ ''__'') of
             None \<Rightarrow> Inl LookupError
           | Some m \<Rightarrow> py_call m [rhs])" for s
    by (simp add: lhs_lastleg_def lhs_compare_def)
  have g: "\<not> truthy (lastleg_of L ''gte'') \<and> map_of (instance_dict L) ''__ge__'' = None \<longrightarrow>
        lhs_lastleg L ''gte'' rhs = rich_compare ''__ge__'' L rhs"
    using step [of "''gte''"] getattr_comparison [OF ge, of L] call_comparison [OF ge, of L rhs]
    by (simp add: t)
  have l: "\<not> truthy (lastleg_of L ''lte'') \<and> map_of (instance_dict L) ''__le__'' = None \<longrightarrow>
        lhs_lastleg L ''lte'' rhs = rich_compare ''__le__'' L rhs"
    using step [of "''lte''"] getattr_comparison [OF le, of L] call_comparison [OF le, of L rhs]
    by (simp add: t)
  have gg: "\<not> truthy (lastleg_of L ''gte'') \<and> \<not> truthy (lastleg_of L ''ge'') \<longrightarrow>
        lhs_lastleg L ''gte'' rhs = lhs_lastleg L ''ge'' rhs"
    using step [of "''gte''"] step [of "''ge''"] by (simp add: t)
  have ll: "\<not> truthy (lastleg_of L ''lte'') \<and> \<not> truthy (lastleg_of L ''le'') \<longrightarrow>
        lhs_lastleg L ''lte'' rhs = lhs_lastleg L ''le'' rhs"
    using step [of "''lte''"] step [of "''le''"] by (simp add: t)
  from t(1,2,5) step [of seg] gg ll g l show ?thesis by blast
qed

theorem named_comparator_witness:
  "\<not> truthy (lastleg_of (VInt 5) ''gte'') \<and> \<not> truthy (lastleg_of (VInt 5) ''ge'')
   \<and> \<not> truthy (lastleg_of (VInt 5) ''lte'') \<and> \<not> truthy (lastleg_of (VInt 5) ''le'')
   \<and> \<not> truthy (lastleg_of (VInt 5) ''between'')
   \<and> map_of (instance_dict (VInt 5)) ''__ge__'' = None
   \<and> map_of (instance_dict (VInt 5)) ''__le__'' = None
   \<and> lhs_lastleg (VInt 5) ''gte'' (VInt 3) = Inr (VBool True)
   \<and> lhs_lastleg (VInt 5) ''ge'' (VInt 3) = Inr (VBool True)
   \<and> lhs_lastleg (VInt 5) ''lte'' (VInt 3) = Inr (VBool False)
   \<and> lhs_lastleg (VInt 5) ''le'' (VInt 3) = Inr (VBool False)
   \<and> lhs_lastleg (VInt 5) ''between'' (VInt 3) = Inl LookupError"
  using named_comparator [of "''between''" "VInt 5" "VInt 3"]
  by (simp add: lhs_lastleg_def lhs_compare_def translate_lookup_def TRANSLATE_LOOKUPS_def
      lastleg_of_def rich_compare_def py_cmp_def cmp_holds_def py_call_def
      call_method_def getattr_defs)

section \<open>The rule normalizer\<close>

text \<open>
  C6. The obligations that \<^verbatim>\<open>normalize_lookups\<close> returns have pairwise distinct
  left-paths, one for each left-path of a surviving rule; and the obligation for the
  left-path of a surviving rule that no later surviving rule shares carries the
  resolved right-hand side of that rule: the last write wins.
\<close>

theorem normalize_last_write_wins:
  assumes "get_user h (request b) = Inr u" and "normalize_lookups h self rs b = Inr out"
  shows "distinct (map fst out)
       \<and> fst ` set out = rule_lhs ` {r \<in> set rs. survives u r}
       \<and> (\<forall>rs1 r rs2.
            rs = rs1 @ r # rs2 \<and> survives u r
              \<and> (\<forall>r'\<in>set rs2. survives u r' \<longrightarrow> rule_lhs r' \<noteq> rule_lhs r)
            \<longrightarrow> (\<exists>x. resolve_rhs (PRIMITIVES h (bound_self self u b)) (rule_rhs r) = Inr x
                   \<and> map_of out (rule_lhs r) = Some x))"
proof -
  let ?P = "PRIMITIVES h (bound_self self u b)"
  from assms obtain lk where g: "gather_lookups u rs [] = Inr lk"
    and r: "resolve_lookups ?P lk [] = Inr out"
    by (auto simp: normalize_lookups_unfold split: sum.splits)
  have dl: "distinct (map fst lk)" using gather_distinct[OF g] by simp
  have d: "distinct (map fst out)" using resolve_distinct[OF r] by simp
  have k: "fst ` set out = rule_lhs ` {r \<in> set rs. survives u r}"
    using resolve_keys[OF r] gather_keys[OF g] by simp
  have w: "\<exists>x. resolve_rhs ?P (rule_rhs r) = Inr x \<and> map_of out (rule_lhs r) = Some x"
    if "rs = rs1 @ r # rs2" "survives u r"
      "\<forall>r'\<in>set rs2. survives u r' \<longrightarrow> rule_lhs r' \<noteq> rule_lhs r" for rs1 r rs2
  proof -
    from g that(1) have "gather_lookups u (rs1 @ r # rs2) [] = Inr lk" by simp
    from gather_last_wins[OF this that(2,3)] have "(rule_lhs r, rule_rhs r) \<in> set lk"
      by (rule map_of_SomeD)
    from resolve_value[OF r dl this] show ?thesis .
  qed
  from d k w show ?thesis by blast
qed

theorem normalize_last_write_wins_witness:
  "get_user ex_host (request ex_bundle) = Inr ex_user
   \<and> normalize_lookups ex_host ex_auth
        [Naked ''owner'' ''now'', Naked ''id'' ''user__id'', Naked ''owner'' ''user''] ex_bundle
      = Inr [(''owner'', ex_user), (''id'', VInt 7)]
   \<and> survives ex_user (Naked ''owner'' ''user'')
   \<and> (\<exists>x. resolve_rhs (PRIMITIVES ex_host (bound_self ex_auth ex_user ex_bundle)) ''user'' = Inr x
          \<and> map_of [(''owner'', ex_user), (''id'', VInt 7)] ''owner'' = Some x)"
proof -
  let ?rs = "[Naked ''owner'' ''now'', Naked ''id'' ''user__id'', Naked ''owner'' ''user'']"
  have u: "get_user ex_host (request ex_bundle) = Inr ex_user"
    by (simp add: ex_host_def)
  have n: "normalize_lookups ex_host ex_auth ?rs ex_bundle = Inr [(''owner'', ex_user), (''id'', VInt 7)]"
    by code_simp
  have s: "survives ex_user (Naked ''owner'' ''user'')"
    by (simp add: survives_def)
  have d: "?rs = [Naked ''owner'' ''now'', Naked ''id'' ''user__id''] @ Naked ''owner'' ''user'' # []
      \<and> survives ex_user (Naked ''owner'' ''user'')
      \<and> (\<forall>r'\<in>set []. survives ex_user r' \<longrightarrow> rule_lhs r' \<noteq> rule_lhs (Naked ''owner'' ''user''))"
    using s by simp
  note w = normalize_last_write_wins [OF u n, THEN conjunct2, THEN conjunct2, rule_format, OF d]
  have "rule_lhs (Naked ''owner'' ''user'') = ''owner''" "rule_rhs (Naked ''owner'' ''user'') = ''user''"
    by (simp_all add: rule_lhs_def rule_rhs_def)
  with w have "\<exists>x. resolve_rhs (PRIMITIVES ex_host (bound_self ex_auth ex_user ex_bundle)) ''user'' = Inr x
          \<and> map_of [(''owner'', ex_user), (''id'', VInt 7)] ''owner'' = Some x"
    by simp
  with u n s show ?thesis by blast
qed

text \<open>
  C7. A sentinel rule whose sentinel returns a falsy value for the user of the call
  leaves the result of \<^verbatim>\<open>normalize_lookups\<close> as it is without the rule (so neither of
  its paths is resolved); one whose sentinel returns a truthy value gives the result
  of the naked rule with the same paths.
\<close>

theorem sentinel_gates_rule:
  assumes "get_user h (request b) = Inr u" and "sentinel u = Inr t"
  shows "(\<not> truthy t \<longrightarrow>
            normalize_lookups h self (rs1 @ Sentinel sentinel lhs rhs # rs2) b =
            normalize_lookups h self (rs1 @ rs2) b)
       \<and> (truthy t \<longrightarrow>
            normalize_lookups h self (rs1 @ Sentinel sentinel lhs rhs # rs2) b =
            normalize_lookups h self (rs1 @ Naked lhs rhs # rs2) b)"
proof -
  have "\<not> truthy t \<Longrightarrow>
      gather_lookups u (rs1 @ Sentinel sentinel lhs rhs # rs2) [] = gather_lookups u (rs1 @ rs2) []"
    using assms(2) by (simp add: gather_append split: sum.splits)
  moreover have "truthy t \<Longrightarrow>
      gather_lookups u (rs1 @ Sentinel sentinel lhs rhs # rs2) [] =
      gather_lookups u (rs1 @ Naked lhs rhs # rs2) []"
    using assms(2) by (simp add: gather_append split: sum.splits)
  ultimately show ?thesis
    using assms(1) by (simp add: normalize_lookups_unfold)
qed

theorem sentinel_gates_rule_witness:
  "get_user ex_admin_host (request ex_bundle) = Inr ex_admin
   \<and> isnot_super ex_admin = Inr (VBool False) \<and> \<not> truthy (VBool False)
   \<and> normalize_lookups ex_admin_host ex_auth [Sentinel isnot_super ''secret'' ''bogus''] ex_bundle
      = Inr []
   \<and> get_user ex_host (request ex_bundle) = Inr ex_user
   \<and> isnot_super ex_user = Inr (VBool True) \<and> truthy (VBool True)
   \<and> normalize_lookups ex_host ex_auth [Sentinel isnot_super ''owner'' ''user''] ex_bundle
      = normalize_lookups ex_host ex_auth [Naked ''owner'' ''user''] ex_bundle"
proof -
  have u1: "get_user ex_admin_host (request ex_bundle) = Inr ex_admin"
    by (simp add: ex_admin_host_def)
  have s1: "isnot_super ex_admin = Inr (VBool False)"
    by (simp add: isnot_super_def ex_admin_def py_eq_def getattr_defs)
  have u2: "get_user ex_host (request ex_bundle) = Inr ex_user"
    by (simp add: ex_host_def)
  have s2: "isnot_super ex_user = Inr (VBool True)"
    by (simp add: isnot_super_def ex_user_def py_eq_def getattr_defs)
  from sentinel_gates_rule [where h = ex_admin_host and b = ex_bundle and u = ex_admin
        and sentinel = isnot_super and t = "VBool False" and self = ex_auth
        and ?rs1.0 = "[]" and lhs = "''secret''" and rhs = "''bogus''" and ?rs2.0 = "[]"]
    sentinel_gates_rule [where h = ex_host and b = ex_bundle and u = ex_user
        and sentinel = isnot_super and t = "VBool True" and self = ex_auth
        and ?rs1.0 = "[]" and lhs = "''owner''" and rhs = "''user''" and ?rs2.0 = "[]"]
    u1 s1 u2 s2
  show ?thesis by (simp add: normalize_lookups_Nil)
qed

text \<open>
  C9. A rule whose right-hand path starts with a name that is bound to no
  primitive does not always make the call fail: the rule may be overwritten by a
  later rule with the same left-path, and the resolution of an earlier entry may
  raise another error first.
\<close>

theorem unknown_primitive_counterexample:
  "map_of (PRIMITIVES ex_host ex_auth) (hd (py_split ''bogus'')) = None
   \<and> normalize_lookups ex_host ex_auth
        [Naked ''owner'' ''bogus'', Naked ''owner'' ''user''] ex_bundle
      = Inr [(''owner'', ex_user)]
   \<and> normalize_lookups ex_host ex_auth
        [Naked ''owner'' ''user__nickname'', Naked ''id'' ''bogus''] ex_bundle
      = Inl LookupError"
  by code_simp

text \<open>
  C9, as amended. A surviving rule that no later surviving rule overwrites, and
  whose right-hand path starts with a name bound to no primitive, makes the whole
  call fail with an error. The error is the \<^verbatim>\<open>TypeError\<close> of calling the missing
  provider when no sentinel raises and the right-hand path of every surviving rule
  either resolves or starts with an unbound name as well.
\<close>

theorem unknown_primitive_is_fatal:
  assumes "get_user h (request b) = Inr u"
    and "rs = rs1 @ r # rs2" and "survives u r"
    and "\<forall>r'\<in>set rs2. survives u r' \<longrightarrow> rule_lhs r' \<noteq> rule_lhs r"
    and "map_of (PRIMITIVES h self) (hd (py_split (rule_rhs r))) = None"
  shows "(\<exists>e. normalize_lookups h self rs b = Inl e)
       \<and> ((\<forall>r'\<in>set rs. sentinel_returns u r')
            \<and> (\<forall>r'\<in>set rs. survives u r' \<longrightarrow>
                  (\<exists>x. resolve_rhs (PRIMITIVES h (bound_self self u b)) (rule_rhs r') = Inr x)
                  \<or> map_of (PRIMITIVES h self) (hd (py_split (rule_rhs r'))) = None)
          \<longrightarrow> normalize_lookups h self rs b = Inl TypeError)"
proof -
  let ?P = "PRIMITIVES h (bound_self self u b)"
  have unk: "resolve_rhs ?P (rule_rhs r) = Inl TypeError"
    using assms(5) by (simp add: resolve_rhs_unknown PRIMITIVES_names)
  have mem: "(rule_lhs r, rule_rhs r) \<in> set lk" if "gather_lookups u rs [] = Inr lk" for lk
  proof -
    from that assms(2) have "gather_lookups u (rs1 @ r # rs2) [] = Inr lk" by simp
    from gather_last_wins[OF this assms(3,4)] show ?thesis by (rule map_of_SomeD)
  qed
  have fails: "\<exists>e. normalize_lookups h self rs b = Inl e"
  proof (cases "gather_lookups u rs []")
    case (Inl e)
    with assms(1) show ?thesis by (simp add: normalize_lookups_unfold)
  next
    case (Inr lk)
    from resolve_fails[OF mem[OF Inr] unk] Inr assms(1) show ?thesis
      by (simp add: normalize_lookups_unfold)
  qed
  have kind: "normalize_lookups h self rs b = Inl TypeError"
    if ok: "\<forall>r'\<in>set rs. sentinel_returns u r'"
      and others: "\<forall>r'\<in>set rs. survives u r' \<longrightarrow>
                  (\<exists>x. resolve_rhs ?P (rule_rhs r') = Inr x)
                  \<or> map_of (PRIMITIVES h self) (hd (py_split (rule_rhs r'))) = None"
  proof -
    from gather_total[OF ok] obtain lk where g: "gather_lookups u rs [] = Inr lk" by blast
    have "(\<exists>x. resolve_rhs ?P v = Inr x) \<or> resolve_rhs ?P v = Inl TypeError"
      if "(k, v) \<in> set lk" for k v
    proof -
      from gather_entries[OF g that] obtain r' where "r' \<in> set rs" "survives u r'" "rule_rhs r' = v"
        by auto
      with others show ?thesis
        by (auto simp: resolve_rhs_unknown PRIMITIVES_names)
    qed
    then have a: "\<forall>(k, v)\<in>set lk. (\<exists>x. resolve_rhs ?P v = Inr x) \<or> resolve_rhs ?P v = Inl TypeError"
      by auto
    from mem[OF g] unk have "\<exists>(k, v)\<in>set lk. resolve_rhs ?P v = Inl TypeError" by auto
    from resolve_only_TypeError[OF a this] g assms(1) show ?thesis
      by (simp add: normalize_lookups_unfold)
  qed
  from fails kind show ?thesis by blast
qed

theorem unknown_primitive_is_fatal_witness:
  "get_user ex_host (request ex_bundle) = Inr ex_user
   \<and> survives ex_user (Naked ''owner'' ''bogus'')
   \<and> map_of (PRIMITIVES ex_host ex_auth) (hd (py_split (rule_rhs (Naked ''owner'' ''bogus'')))) = None
   \<and> sentinel_returns ex_user (Naked ''id'' ''user__id'')
   \<and> (\<exists>x. resolve_rhs (PRIMITIVES ex_host (bound_self ex_auth ex_user ex_bundle)) ''user__id'' = Inr x)
   \<and> normalize_lookups ex_host ex_auth
        [Naked ''id'' ''user__id'', Naked ''owner'' ''bogus''] ex_bundle = Inl TypeError"
proof -
  let ?r = "Naked ''owner'' ''bogus''"
  let ?rs = "[Naked ''id'' ''user__id'', ?r]"
  have u: "get_user ex_host (request ex_bundle) = Inr ex_user"
    by (simp add: ex_host_def)
  have d: "?rs = [Naked ''id'' ''user__id''] @ ?r # []" by simp
  have s: "survives ex_user ?r" by (simp add: survives_def)
  have l: "\<forall>r'\<in>set []. survives ex_user r' \<longrightarrow> rule_lhs r' \<noteq> rule_lhs ?r" by simp
  have p: "map_of (PRIMITIVES ex_host ex_auth) (hd (py_split (rule_rhs ?r))) = None"
    by code_simp
  have x: "resolve_rhs (PRIMITIVES ex_host (bound_self ex_auth ex_user ex_bundle)) ''user__id''
             = Inr (VInt 7)"
    by code_simp
  have ok: "\<forall>r'\<in>set ?rs. sentinel_returns ex_user r'"
    by (simp add: sentinel_returns_def)
  have others: "\<forall>r'\<in>set ?rs. survives ex_user r' \<longrightarrow>
        (\<exists>x. resolve_rhs (PRIMITIVES ex_host (bound_self ex_auth ex_user ex_bundle)) (rule_rhs r') = Inr x)
        \<or> map_of (PRIMITIVES ex_host ex_auth) (hd (py_split (rule_rhs r'))) = None"
    using x p by (simp add: rule_rhs_def)
  from unknown_primitive_is_fatal [OF u d s l p] ok others
  have "normalize_lookups ex_host ex_auth ?rs ex_bundle = Inl TypeError" by blast
  with u s p x ok show ?thesis by simp
qed

section \<open>The decision engine\<close>

text \<open>
  C2. \<^verbatim>\<open>validate_detail\<close> is meant to check every obligation (left-path, resolved
  value). It iterates over the dictionary of obligations itself, so over the
  left-paths alone, and unpacks each left-path into two variables. For the example
  of the specification (the rule \<^verbatim>\<open>("owner__id", "user__id")\<close>, the user with id 7, a
  candidate whose owner has id 7) the one obligation is \<^verbatim>\<open>("owner__id", 7)\<close>, and
  \<^verbatim>\<open>validate_detail\<close> raises \<^verbatim>\<open>ValueError\<close> instead of returning \<open>True\<close>.
\<close>

theorem validate_detail_unpacks_keys:
  "normalize_lookups ex_host ex_auth [Naked ''owner__id'' ''user__id''] ex_bundle
     = Inr [(''owner__id'', VInt 7)]
   \<and> validate_detail ex_host ex_auth (obj ex_bundle) ex_bundle ''update'' = Inl ValueError
   \<and> update_detail ex_host ex_auth [] ex_bundle = Inl ValueError"
  by code_simp

text \<open>
  C10. When the rules have no entry for the operation, \<^verbatim>\<open>validate_detail\<close> returns
  \<open>True\<close> for every candidate, for every bundle whose user \<^verbatim>\<open>get_user\<close> finds; and so
  do \<^verbatim>\<open>create_detail\<close>, \<^verbatim>\<open>update_detail\<close> and \<^verbatim>\<open>delete_detail\<close>.
\<close>

theorem missing_operation_allows:
  assumes "get_user h (request b) = Inr u"
  shows "(map_of (rules self) auth_method = None \<longrightarrow>
            validate_detail h self x b auth_method = Inr True)
       \<and> (map_of (rules self) ''create'' = None \<longrightarrow> create_detail h self xs b = Inr True)
       \<and> (map_of (rules self) ''update'' = None \<longrightarrow> update_detail h self xs b = Inr True)
       \<and> (map_of (rules self) ''delete'' = None \<longrightarrow> delete_detail h self xs b = Inr True)"
  using assms
  by (simp add: validate_detail_def create_detail_def update_detail_def delete_detail_def
      normalize_lookups_Nil)

theorem missing_operation_allows_witness:
  "get_user ex_host (request ex_bundle) = Inr ex_user
   \<and> map_of (rules ex_read_auth) ''create'' = None
   \<and> map_of (rules ex_read_auth) ''update'' = None
   \<and> map_of (rules ex_read_auth) ''delete'' = None
   \<and> validate_detail ex_host ex_read_auth (obj ex_bundle) ex_bundle ''delete'' = Inr True
   \<and> create_detail ex_host ex_read_auth [] ex_bundle = Inr True
   \<and> update_detail ex_host ex_read_auth [] ex_bundle = Inr True
   \<and> delete_detail ex_host ex_read_auth [] ex_bundle = Inr True"
proof -
  have u: "get_user ex_host (request ex_bundle) = Inr ex_user"
    by (simp add: ex_host_def)
  from missing_operation_allows [OF u, of ex_read_auth "''delete''" "obj ex_bundle" "[]"] u
  show ?thesis by (simp add: ex_read_auth_def)
qed

end
